theory Spec2Isabelle
  imports Complex_Main "HOL-Library.Word"
begin

section \<open>Brightness classifier (arduino\_detection.py, generar\_anomalia)\<close>

text \<open>
  Python's \<open>sum\<close>, \<open>min\<close> and \<open>max\<close> walk the list from the left with an
  accumulator; \<open>min\<close> and \<open>max\<close> start from the first element. The list holds
  Python integers (unbounded), so the sum is exact.

  \<open>sum(datos_imagen) / len(datos_imagen)\<close> is Python's true division of two integers:
  the correctly rounded double of the exact quotient. The thresholds 60 and 80 are
  doubles, and a quotient \<open>k / n\<close> different from them is at least \<open>1 / n\<close> away, so for
  every list of fewer than \<open>2 ^ 47\<close> samples the comparison of the double with the
  threshold is the comparison of the exact quotient. The model uses the exact quotient.
\<close>

definition py_sum :: "int list \<Rightarrow> int" where
  "py_sum xs = foldl (+) 0 xs"

definition generar_anomalia :: "int list \<Rightarrow> string" where
  "generar_anomalia datos_imagen =
     (case datos_imagen of
        [] \<Rightarrow> ''normal''
      | p # ps \<Rightarrow>
          (let brillo_promedio = real_of_int (py_sum datos_imagen) / real (length datos_imagen);
               brillo_min = foldl min p ps;
               brillo_max = foldl max p ps;
               rango = brillo_max - brillo_min
           in if brillo_promedio < 60 \<and> rango < 25 then ''humo''
              else if brillo_promedio < 80 \<and> rango < 20 then ''humo''
              else ''normal''))"

section \<open>Python string operations used by the scripts\<close>

text \<open>
  Strings are modelled as lists of ASCII characters. The serial lines are decoded
  text; characters outside ASCII (which Python's \<open>strip\<close> and \<open>int\<close> may treat as
  spaces or digits) are outside the model.
\<close>

text \<open>\<open>s.startswith(p)\<close>\<close>

fun startswith :: "string \<Rightarrow> string \<Rightarrow> bool" where
  "startswith s [] = True"
| "startswith [] (c # p) = False"
| "startswith (d # s) (c # p) = (d = c \<and> startswith s p)"

text \<open>\<open>sub in s\<close>: the substring test\<close>

fun py_in :: "string \<Rightarrow> string \<Rightarrow> bool" where
  "py_in sub [] = (sub = [])"
| "py_in sub (c # s) = (startswith (c # s) sub \<or> py_in sub s)"

text \<open>\<open>s.split(',')\<close>: always at least one field, empty fields kept\<close>

fun split_comma :: "string \<Rightarrow> string list" where
  "split_comma [] = [[]]"
| "split_comma (c # s) =
     (if c = CHR '','' then [] # split_comma s
      else (case split_comma s of
              [] \<Rightarrow> [[c]]
            | campo # campos \<Rightarrow> (c # campo) # campos))"

text \<open>The ASCII characters for which \<open>str.isspace\<close> holds: tab to carriage return,
  the four separators 0x1C to 0x1F, and the space.\<close>

definition py_isspace :: "char \<Rightarrow> bool" where
  "py_isspace c =
     (c \<in> set [CHR 0x09, CHR 0x0A, CHR 0x0B, CHR 0x0C, CHR 0x0D,
                CHR 0x1C, CHR 0x1D, CHR 0x1E, CHR 0x1F, CHR '' ''])"

text \<open>\<open>s.strip()\<close>\<close>

definition strip :: "string \<Rightarrow> string" where
  "strip s = rev (dropWhile py_isspace (rev (dropWhile py_isspace s)))"

definition is_digit :: "char \<Rightarrow> bool" where
  "is_digit c = (c \<in> set ''0123456789'')"

definition digit_val :: "char \<Rightarrow> nat" where
  "digit_val c = of_char c - of_char (CHR ''0'')"

text \<open>
  The digits of \<open>int(s)\<close> in base 10, read from the left with the value so far.
  A single underscore is allowed between two digits.
\<close>

fun py_digits :: "nat \<Rightarrow> string \<Rightarrow> nat option" where
  "py_digits acc [] = Some acc"
| "py_digits acc (c # s) =
     (if c = CHR ''_'' then
        (case s of
           [] \<Rightarrow> None
         | d # _ \<Rightarrow> if is_digit d then py_digits acc s else None)
      else if is_digit c then py_digits (10 * acc + digit_val c) s
      else None)"

text \<open>CPython's default limit on the number of digits of a decimal string that
  \<open>int\<close> converts (\<open>sys.int_max_str_digits\<close>).\<close>

definition int_max_str_digits :: nat where
  "int_max_str_digits = 4300"

text \<open>
  \<open>int(s)\<close> for a string: surrounding whitespace is dropped, one sign is allowed, the
  rest must start with a digit. \<open>None\<close> stands for the \<open>ValueError\<close> it raises.
\<close>

definition py_int :: "string \<Rightarrow> int option" where
  "py_int s =
     (let t = strip s;
          negativo = (case t of [] \<Rightarrow> False | c # _ \<Rightarrow> c = CHR ''-'');
          cuerpo = (case t of [] \<Rightarrow> []
                    | c # r \<Rightarrow> if c = CHR ''-'' \<or> c = CHR ''+'' then r else t)
      in case cuerpo of
           [] \<Rightarrow> None
         | c # _ \<Rightarrow>
             if \<not> is_digit c then None
             else if length (filter is_digit cuerpo) > int_max_str_digits then None
             else map_option (\<lambda>n. if negativo then - int n else int n) (py_digits 0 cuerpo))"

section \<open>CSV lines to pixel array (arduino\_detection.py, convertir\_csv\_a\_array)\<close>

datatype py_error = ValueError

text \<open>The list comprehension
  \<open>[int(val.strip()) for val in linea.split(',') if val.strip()]\<close>:
  a field that is empty after stripping is skipped, and the first field that \<open>int\<close>
  rejects raises.\<close>

fun fila_de_campos :: "string list \<Rightarrow> py_error + int list" where
  "fila_de_campos [] = Inr []"
| "fila_de_campos (val # vals) =
     (if strip val \<noteq> [] then
        (case py_int (strip val) of
           None \<Rightarrow> Inl ValueError
         | Some n \<Rightarrow>
             (case fila_de_campos vals of
                Inl e \<Rightarrow> Inl e
              | Inr ns \<Rightarrow> Inr (n # ns)))
      else fila_de_campos vals)"

text \<open>The loop over the lines, with the list \<open>valores\<close> built so far.\<close>

fun convertir_bucle :: "int list \<Rightarrow> string list \<Rightarrow> py_error + int list" where
  "convertir_bucle valores [] = Inr valores"
| "convertir_bucle valores (linea # resto) =
     (case fila_de_campos (split_comma linea) of
        Inl e \<Rightarrow> Inl e
      | Inr fila \<Rightarrow> convertir_bucle (valores @ fila) resto)"

definition convertir_csv_a_array :: "string list \<Rightarrow> py_error + int list" where
  "convertir_csv_a_array datos_csv = convertir_bucle [] datos_csv"

text \<open>
  For stating what the extractor reads: the decimal rendering of an integer (what the
  device prints for a sample) and a row of integers written as one comma-separated line.
\<close>

definition digit_char :: "nat \<Rightarrow> char" where
  "digit_char d = ''0123456789'' ! d"

fun dec_nat :: "nat \<Rightarrow> string" where
  "dec_nat n = (if n < 10 then [digit_char n] else dec_nat (n div 10) @ [digit_char (n mod 10)])"

declare dec_nat.simps [simp del]

definition dec_int :: "int \<Rightarrow> string" where
  "dec_int n = (if n < 0 then CHR ''-'' # dec_nat (nat (- n)) else dec_nat (nat n))"

fun join_comma :: "string list \<Rightarrow> string" where
  "join_comma [] = []"
| "join_comma [campo] = campo"
| "join_comma (campo # campos) = campo @ CHR '','' # join_comma campos"

definition linea_de_fila :: "int list \<Rightarrow> string" where
  "linea_de_fila fila = join_comma (map dec_int fila)"

section \<open>CSV capture between markers (capturar\_datos\_csv, capturar\_imagen\_csv)\<close>

definition es_inicio :: "string \<Rightarrow> bool" where
  "es_inicio linea = (py_in ''INICIO DATOS CSV'' linea \<or> py_in ''==='' linea)"

definition es_fin :: "string \<Rightarrow> bool" where
  "es_fin linea = (py_in ''FIN DATOS CSV'' linea \<or> py_in ''Copia estos datos'' linea)"

text \<open>
  The polling loop. Its input is the sequence of values that \<open>leer_linea\<close> returns
  while the loop runs: \<open>None\<close> when nothing is waiting, otherwise the stripped line.
  The sequence ends where the loop is left without a \<open>break\<close>: when the deadline
  \<open>time.time() < timeout\<close> has passed (arduino\_detection.py) or at the keyboard
  interrupt (arduino\_reader.py). An empty line is falsy and skipped, like \<open>None\<close>.
\<close>

fun capturar_bucle :: "bool \<Rightarrow> string list \<Rightarrow> string option list \<Rightarrow> string list" where
  "capturar_bucle capturando datos_csv [] = datos_csv"
| "capturar_bucle capturando datos_csv (None # lecturas) =
     capturar_bucle capturando datos_csv lecturas"
| "capturar_bucle capturando datos_csv (Some linea # lecturas) =
     (if linea = [] then capturar_bucle capturando datos_csv lecturas
      else if es_inicio linea then capturar_bucle True datos_csv lecturas
      else if es_fin linea then datos_csv
      else if capturando \<and> py_in '','' linea \<and> \<not> startswith linea ''#''
      then capturar_bucle capturando (datos_csv @ [linea]) lecturas
      else capturar_bucle capturando datos_csv lecturas)"

text \<open>\<open>capturar_datos_csv\<close> gives up at once when the command could not be sent;
  \<open>None\<close> is its ``no data captured''.\<close>

definition capturar_datos_csv :: "bool \<Rightarrow> string option list \<Rightarrow> string list option" where
  "capturar_datos_csv comando_enviado lecturas =
     (if \<not> comando_enviado then None
      else (let datos_csv = capturar_bucle False [] lecturas
            in if datos_csv \<noteq> [] then Some datos_csv else None))"

text \<open>\<open>capturar_imagen_csv\<close> of arduino\_reader.py runs the same loop body and
  writes the captured lines to the file; the result here is the lines written.\<close>

definition capturar_imagen_csv :: "string option list \<Rightarrow> string list option" where
  "capturar_imagen_csv lecturas =
     (let datos_csv = capturar_bucle False [] lecturas
      in if datos_csv \<noteq> [] then Some datos_csv else None)"

text \<open>
  Notions for stating what the loop captures: the lines the loop looks at (the
  non-empty reads), the lines that stop it (an end marker, in a line that is not taken
  as a start marker first), and the lines it keeps once capturing.
\<close>

fun lineas_leidas :: "string option list \<Rightarrow> string list" where
  "lineas_leidas [] = []"
| "lineas_leidas (None # lecturas) = lineas_leidas lecturas"
| "lineas_leidas (Some linea # lecturas) =
     (if linea = [] then lineas_leidas lecturas else linea # lineas_leidas lecturas)"

definition detiene :: "string \<Rightarrow> bool" where
  "detiene linea = (es_fin linea \<and> \<not> es_inicio linea)"

definition es_dato :: "string \<Rightarrow> bool" where
  "es_dato linea = (\<not> es_inicio linea \<and> py_in '','' linea \<and> \<not> startswith linea ''#'')"

definition no_vacio :: "string list \<Rightarrow> string list option" where
  "no_vacio datos_csv = (if datos_csv \<noteq> [] then Some datos_csv else None)"

section \<open>Publishing to the broker (arduino\_detection.py, enviar\_a\_flespi)\<close>

text \<open>The connection flag and the running counters of \<open>ArduinoFlespiMQTT\<close>.\<close>

record flespi =
  is_connected_mqtt :: bool
  total_envios :: int
  envios_humo :: int
  envios_normal :: int
  errores :: int

text \<open>The values \<open>__init__\<close> gives them.\<close>

definition flespi_init :: flespi where
  "flespi_init =
     \<lparr>is_connected_mqtt = False, total_envios = 0, envios_humo = 0, envios_normal = 0,
      errores = 0\<rparr>"

definition on_mqtt_connect :: "int \<Rightarrow> flespi \<Rightarrow> flespi" where
  "on_mqtt_connect rc s = (if rc = 0 then s\<lparr>is_connected_mqtt := True\<rparr>
                           else s\<lparr>is_connected_mqtt := False\<rparr>)"

definition on_mqtt_disconnect :: "flespi \<Rightarrow> flespi" where
  "on_mqtt_disconnect s = s\<lparr>is_connected_mqtt := False\<rparr>"

text \<open>What the client's \<open>publish\<close> call does: it returns a result with a code
  \<open>rc\<close>, or it raises. \<open>MQTT_ERR_SUCCESS\<close> is the library's constant 0.\<close>

datatype resultado_publish = Rc int | Excepcion

definition MQTT_ERR_SUCCESS :: int where
  "MQTT_ERR_SUCCESS = 0"

text \<open>
  \<open>enviar_a_flespi\<close> returns the updated object, the boolean it returns, and the
  \<open>publish\<close> calls it made, each with the verdict and the pixels the payload is built
  from (the payload's timestamp and rounded statistics are left out).
\<close>

definition enviar_a_flespi ::
  "resultado_publish \<Rightarrow> flespi \<Rightarrow> int list \<Rightarrow> string \<Rightarrow> flespi \<times> bool \<times> (string \<times> int list) list" where
  "enviar_a_flespi respuesta s datos_imagen anomalia =
     (if \<not> is_connected_mqtt s then (s\<lparr>errores := errores s + 1\<rparr>, False, [])
      else
        (case respuesta of
           Rc rc \<Rightarrow>
             if rc = MQTT_ERR_SUCCESS then
               (let s1 = s\<lparr>total_envios := total_envios s + 1\<rparr>
                in if anomalia = ''humo''
                   then (s1\<lparr>envios_humo := envios_humo s1 + 1\<rparr>, True, [(anomalia, datos_imagen)])
                   else (s1\<lparr>envios_normal := envios_normal s1 + 1\<rparr>, True, [(anomalia, datos_imagen)]))
             else (s\<lparr>errores := errores s + 1\<rparr>, False, [(anomalia, datos_imagen)])
         | Excepcion \<Rightarrow> (s\<lparr>errores := errores s + 1\<rparr>, False, [(anomalia, datos_imagen)])))"

definition cuentas_consistentes :: "flespi \<Rightarrow> bool" where
  "cuentas_consistentes s = (total_envios s = envios_humo s + envios_normal s)"

section \<open>The drone simulator's publisher (intentitobb.py, publish\_telemetry)\<close>

text \<open>
  The module's globals. The floating-point ones are kept abstract (type \<open>'f\<close>): the
  model says which of them a call replaces, not the arithmetic on them.
\<close>

record 'f dron =
  connected :: bool
  reading_count :: int
  gps_loss_count :: int
  flight_time :: 'f
  battery_level :: 'f
  current_lat :: 'f
  current_lon :: 'f
  current_alt :: 'f
  prev_lat :: 'f
  prev_lon :: 'f

text \<open>
  What one call draws and receives: the value of \<open>random.randint(1, 3)\<close>, the new
  coordinates that \<open>simulate_drone_movement\<close> computes from the old ones and its random
  steps, the battery update (\<open>battery_level -= 0.1\<close>, reset to 100.0 below zero), and the
  outcome of the client's \<open>publish\<close>.
\<close>

record 'f azar =
  tipo_anomalia :: int
  mover_lat :: "'f \<Rightarrow> 'f"
  mover_lon :: "'f \<Rightarrow> 'f"
  nueva_alt :: 'f
  descargar :: "'f \<Rightarrow> 'f"
  respuesta :: resultado_publish

text \<open>The result is the globals after the call and the \<open>publish\<close> calls made, each
  with the anomaly type of the reading.\<close>

definition publish_telemetry :: "'f azar \<Rightarrow> 'f dron \<Rightarrow> 'f dron \<times> int list" where
  "publish_telemetry e g =
     (if \<not> connected g then (g, [])
      else
        (let g1 = g\<lparr>reading_count := reading_count g + 1\<rparr>;
             has_anomaly = (reading_count g1 mod 5 = 0);
             anomaly_type = (if has_anomaly then tipo_anomalia e else 0);
             g2 = (if anomaly_type \<noteq> 2
                   then g1\<lparr>current_lat := mover_lat e (current_lat g1),
                           current_lon := mover_lon e (current_lon g1),
                           current_alt := nueva_alt e\<rparr>
                   else g1\<lparr>gps_loss_count := gps_loss_count g1 + 1\<rparr>);
             g3 = g2\<lparr>battery_level := descargar e (battery_level g2)\<rparr>
         in case respuesta e of
              Rc rc \<Rightarrow>
                if rc = MQTT_ERR_SUCCESS \<and> reading_count g3 mod 5 = 0
                then (g3\<lparr>prev_lat := current_lat g3, prev_lon := current_lon g3\<rparr>, [anomaly_type])
                else (g3, [anomaly_type])
            | Excepcion \<Rightarrow> (g3, [anomaly_type])))"

section \<open>CSV pixels to image (arduino\_test.py, array\_a\_imagen)\<close>

text \<open>
  The converter's dimensions are natural numbers: the repository constructs it with
  the defaults 22 and 18 only, and the fallback search assigns positive heights.
  The pixel array is numpy's \<open>uint8\<close> array.
\<close>

type_synonym pixel = "8 word"

record converter =
  ancho :: nat
  alto :: nat

definition converter_init :: converter where
  "converter_init = \<lparr>ancho = 22, alto = 18\<rparr>"

text \<open>A grayscale image: its size and its rows of pixels, top row first.\<close>

record imagen =
  im_ancho :: nat
  im_alto :: nat
  im_filas :: "pixel list list"

text \<open>The messages the function prints.\<close>

datatype evento = Ajustando nat | NuevoTamano nat nat | ErrorCreandoImagen

text \<open>\<open>for h in range(10, 50): if total_pixeles % h == 0: ... break\<close>: the first
  height that divides the number of pixels, if any.\<close>

definition buscar_alto :: "nat \<Rightarrow> nat option" where
  "buscar_alto total_pixeles = List.find (\<lambda>h. total_pixeles mod h = 0) [10..<50]"

text \<open>The block under \<open>if len(datos) != total_esperado\<close>: it prints, and replaces
  the converter's dimensions when the search finds a height.\<close>

definition ajustar :: "converter \<Rightarrow> nat \<Rightarrow> converter \<times> evento list" where
  "ajustar c total_pixeles =
     (if total_pixeles \<noteq> ancho c * alto c then
        (case buscar_alto total_pixeles of
           None \<Rightarrow> (c, [Ajustando total_pixeles])
         | Some h \<Rightarrow>
             (c\<lparr>ancho := total_pixeles div h, alto := h\<rparr>,
              [Ajustando total_pixeles, NuevoTamano (total_pixeles div h) h]))
      else (c, []))"

text \<open>numpy's row-major \<open>reshape((h, w))\<close> of a flat array of \<open>h * w\<close> elements.\<close>

fun reshape :: "nat \<Rightarrow> nat \<Rightarrow> 'a list \<Rightarrow> 'a list list" where
  "reshape 0 w datos = []"
| "reshape (Suc h) w datos = take w datos # reshape h w (drop w datos)"

text \<open>
  Pillow's \<open>Image.resize(size, Image.NEAREST)\<close>, a library routine outside the
  repository: every pixel of the result is the source pixel under its centre, that is
  the one at column \<open>floor ((X + 1/2) * w / W)\<close> and row \<open>floor ((Y + 1/2) * h / H)\<close>,
  computed here in exact arithmetic. It raises for a size below 1.
\<close>

definition resize_nearest :: "nat \<times> nat \<Rightarrow> imagen \<Rightarrow> imagen option" where
  "resize_nearest tam im =
     (case tam of
        (W, H) \<Rightarrow>
          if W < 1 \<or> H < 1 then None
          else Some \<lparr>im_ancho = W, im_alto = H,
                     im_filas = map (\<lambda>Y. map (\<lambda>X. im_filas im ! (((2 * Y + 1) * im_alto im) div (2 * H))
                                                        ! (((2 * X + 1) * im_ancho im) div (2 * W)))
                                      [0..<W])
                                 [0..<H]\<rparr>)"

text \<open>
  \<open>array_a_imagen\<close> returns the converter (its dimensions may have been replaced),
  the messages printed, and the image, or \<open>None\<close> where an exception is caught:
  \<open>reshape\<close> raises when the dimensions do not multiply to the length, \<open>resize\<close>
  when the target size is below 1.
\<close>

definition array_a_imagen :: "converter \<Rightarrow> pixel list \<Rightarrow> int \<Rightarrow> converter \<times> evento list \<times> imagen option" where
  "array_a_imagen c datos escalar =
     (case ajustar c (length datos) of
        (c1, mensajes) \<Rightarrow>
          if alto c1 * ancho c1 \<noteq> length datos then (c1, mensajes @ [ErrorCreandoImagen], None)
          else
            (let imagen = \<lparr>im_ancho = ancho c1, im_alto = alto c1,
                            im_filas = reshape (alto c1) (ancho c1) datos\<rparr>
             in if escalar > 1 then
                  (case resize_nearest (ancho c1 * nat escalar, alto c1 * nat escalar) imagen of
                     None \<Rightarrow> (c1, mensajes @ [ErrorCreandoImagen], None)
                   | Some grande \<Rightarrow> (c1, mensajes, Some grande))
                else (c1, mensajes, Some imagen)))"

section \<open>Properties of the classifier\<close>

lemma py_sum_sum_list: "py_sum xs = sum_list xs"
proof -
  have "foldl (+) a xs = a + sum_list xs" for a :: int
    by (induction xs arbitrary: a) simp_all
  then show ?thesis by (simp add: py_sum_def)
qed

lemma foldl_min_Min: "foldl min (p::int) ps = Min (set (p # ps))"
proof (induction ps arbitrary: p)
  case Nil
  show ?case by simp
next
  case (Cons q qs)
  have "foldl min p (q # qs) = Min (set (min p q # qs))"
    using Cons.IH [of "min p q"] by simp
  also have "\<dots> = Min (set (p # q # qs))"
    by (cases qs) (simp_all add: min.assoc)
  finally show ?case .
qed

lemma foldl_max_Max: "foldl max (p::int) ps = Max (set (p # ps))"
proof (induction ps arbitrary: p)
  case Nil
  show ?case by simp
next
  case (Cons q qs)
  have "foldl max p (q # qs) = Max (set (max p q # qs))"
    using Cons.IH [of "max p q"] by simp
  also have "\<dots> = Max (set (p # q # qs))"
    by (cases qs) (simp_all add: max.assoc)
  finally show ?case .
qed

lemma generar_anomalia_nonempty:
  assumes "xs \<noteq> []"
  shows "generar_anomalia xs =
     (if real_of_int (sum_list xs) / real (length xs) < 60 \<and> Max (set xs) - Min (set xs) < 25
      then ''humo''
      else if real_of_int (sum_list xs) / real (length xs) < 80 \<and> Max (set xs) - Min (set xs) < 20
      then ''humo'' else ''normal'')"
proof -
  from assms obtain p ps where xs: "xs = p # ps" by (cases xs) auto
  show ?thesis
    unfolding xs generar_anomalia_def Let_def list.case py_sum_sum_list
      foldl_min_Min foldl_max_Max ..
qed

text \<open>
  Claim C1. The classifier returns ``normal'' for the empty sequence. For a non-empty
  sequence it returns the smoke verdict (the string \<open>humo\<close> of the source) exactly when
  (mean < 60 and range < 25) or (mean < 80 and range < 20), where the mean is the sum
  divided by the length and the range is the maximum minus the minimum; every other
  answer is ``normal''. This holds for all integer samples, those in [0, 255] among them.
\<close>

theorem C1_generar_anomalia_rule:
  "generar_anomalia [] = ''normal''
   \<and> (xs \<noteq> [] \<longrightarrow>
        (generar_anomalia xs = ''humo'') =
          ((real_of_int (sum_list xs) / real (length xs) < 60 \<and> Max (set xs) - Min (set xs) < 25)
           \<or> (real_of_int (sum_list xs) / real (length xs) < 80 \<and> Max (set xs) - Min (set xs) < 20)))
   \<and> (generar_anomalia xs \<noteq> ''humo'' \<longrightarrow> generar_anomalia xs = ''normal'')"
proof (intro conjI impI)
  show "generar_anomalia [] = ''normal''"
    by (simp add: generar_anomalia_def)
next
  assume "xs \<noteq> []"
  then show "(generar_anomalia xs = ''humo'') =
          ((real_of_int (sum_list xs) / real (length xs) < 60 \<and> Max (set xs) - Min (set xs) < 25)
           \<or> (real_of_int (sum_list xs) / real (length xs) < 80 \<and> Max (set xs) - Min (set xs) < 20))"
    by (simp add: generar_anomalia_nonempty)
next
  assume "generar_anomalia xs \<noteq> ''humo''"
  then show "generar_anomalia xs = ''normal''"
    by (cases xs) (simp_all add: generar_anomalia_def Let_def split: if_splits)
qed

theorem C1_generar_anomalia_rule_witness:
  "[50, 55, 60 :: int] \<noteq> [] \<and> generar_anomalia [50, 55, 60] = ''humo''
   \<and> generar_anomalia [10, 200] \<noteq> ''humo'' \<and> generar_anomalia [10, 200] = ''normal''"
  using C1_generar_anomalia_rule [of "[50, 55, 60]"] C1_generar_anomalia_rule [of "[10, 200]"]
  by simp

text \<open>
  Claim C4, as stated, fails: the single sample 60 has mean exactly 60 and is classified
  as smoke by the second rule (60 < 80 and range 0 < 20); the samples 40 and 60 have
  range exactly 20 and are classified as smoke by the first rule.
\<close>

theorem C4_boundary_counterexample:
  "[60 :: int] \<noteq> [] \<and> real_of_int (sum_list [60]) / real (length [60 :: int]) = 60
   \<and> generar_anomalia [60] = ''humo''
   \<and> Max (set [40, 60 :: int]) - Min (set [40, 60]) = 20
   \<and> generar_anomalia [40, 60] = ''humo''"
  by (simp add: generar_anomalia_def py_sum_def)

text \<open>
  Claim C4, amended. For a non-empty sample array: a mean of exactly 80 or a range of
  exactly 25 never gives smoke; with a mean of exactly 60 the verdict is smoke exactly
  when the range is below 20, and with a range of exactly 20 exactly when the mean is
  below 60. Each threshold comparison is strict for its own rule.
\<close>

theorem C4_boundaries:
  assumes "xs \<noteq> []"
  shows "(real_of_int (sum_list xs) / real (length xs) = 80 \<or> Max (set xs) - Min (set xs) = 25
            \<longrightarrow> generar_anomalia xs \<noteq> ''humo'')
       \<and> (real_of_int (sum_list xs) / real (length xs) = 60
            \<longrightarrow> (generar_anomalia xs = ''humo'') = (Max (set xs) - Min (set xs) < 20))
       \<and> (Max (set xs) - Min (set xs) = 20
            \<longrightarrow> (generar_anomalia xs = ''humo'') = (real_of_int (sum_list xs) / real (length xs) < 60))"
  using assms by (auto simp add: generar_anomalia_nonempty)

theorem C4_boundaries_witness:
  "[80 :: int] \<noteq> [] \<and> generar_anomalia [80] \<noteq> ''humo''
   \<and> generar_anomalia [50, 75] \<noteq> ''humo''
   \<and> generar_anomalia [60] = ''humo'' \<and> generar_anomalia [50, 70] \<noteq> ''humo''
   \<and> generar_anomalia [40, 60] = ''humo'' \<and> generar_anomalia [60, 80] \<noteq> ''humo''"
  using C4_boundaries [of "[80]"] C4_boundaries [of "[50, 75]"] C4_boundaries [of "[60]"]
    C4_boundaries [of "[50, 70]"] C4_boundaries [of "[40, 60]"] C4_boundaries [of "[60, 80]"]
  by simp

section \<open>Properties of the CSV capture\<close>

text \<open>
  What the loop returns, for any state it is entered with: the lines gathered so far,
  followed by the data lines among the lines read before the first stopping line,
  from the first start marker on unless it is capturing already.
\<close>

lemma capturar_bucle_filter:
  "capturar_bucle capturando datos_csv lecturas =
     datos_csv @ filter es_dato
       ((if capturando then id else dropWhile (\<lambda>l. \<not> es_inicio l))
          (takeWhile (\<lambda>l. \<not> detiene l) (lineas_leidas lecturas)))"
proof (induction lecturas arbitrary: capturando datos_csv)
  case Nil
  show ?case by simp
next
  case (Cons lectura lecturas)
  show ?case
  proof (cases lectura)
    case None
    then show ?thesis using Cons.IH by simp
  next
    case (Some linea)
    show ?thesis
    proof (cases "linea = []")
      case True
      then show ?thesis using Some Cons.IH by simp
    next
      case False
      then show ?thesis
        using Some Cons.IH [of True datos_csv] Cons.IH [of capturando datos_csv]
          Cons.IH [of capturando "datos_csv @ [linea]"]
        by (auto simp add: detiene_def es_dato_def)
    qed
  qed
qed

lemma takeWhile_no_fin:
  assumes "\<forall>l. Some l \<in> set lecturas \<longrightarrow> \<not> es_fin l"
  shows "takeWhile (\<lambda>l. \<not> detiene l) (lineas_leidas lecturas) = lineas_leidas lecturas"
proof -
  have "set (lineas_leidas lecturas) \<subseteq> {l. Some l \<in> set lecturas}"
    by (induction lecturas rule: lineas_leidas.induct) auto
  with assms have "\<forall>l \<in> set (lineas_leidas lecturas). \<not> detiene l"
    by (auto simp add: detiene_def)
  then show ?thesis by (simp add: takeWhile_eq_all_conv)
qed

text \<open>
  Claim C3, as stated, fails: a line that holds an end marker and a start marker is
  taken as a start marker (that test comes first and continues the loop), so it does
  not end the capture. Below, the line \<open>3,4\<close> is captured although it comes after a
  line containing the end marker \<open>FIN DATOS CSV\<close> and no end marker follows it.
\<close>

theorem C3_counterexample:
  "capturar_datos_csv True
     [Some ''==='', Some ''1,2'', Some ''=== FIN DATOS CSV ==='', Some ''3,4'']
     = Some [''1,2'', ''3,4'']
   \<and> es_fin ''=== FIN DATOS CSV ===''"
  by (simp add: capturar_datos_csv_def es_inicio_def es_fin_def)

text \<open>
  Claim C3, amended. The capture keeps, in order, exactly the lines that are read
  from the first line containing a start marker on and before the first line that
  contains an end marker and no start marker (if there is one), that contain a comma,
  do not start with \<open>#\<close> and do not themselves contain a start marker; it reports no
  data when there is no such line. Both capture functions do this. For the stream
  noise, \<open>===\<close>, \<open>1,2\<close>, \<open>3,4\<close>, \<open>FIN DATOS CSV\<close> the captured lines are
  \<open>1,2\<close> and \<open>3,4\<close>.
\<close>

theorem C3_capture_filter:
  "capturar_datos_csv True lecturas =
     no_vacio (filter es_dato (dropWhile (\<lambda>l. \<not> es_inicio l)
        (takeWhile (\<lambda>l. \<not> detiene l) (lineas_leidas lecturas))))
   \<and> capturar_imagen_csv lecturas =
     no_vacio (filter es_dato (dropWhile (\<lambda>l. \<not> es_inicio l)
        (takeWhile (\<lambda>l. \<not> detiene l) (lineas_leidas lecturas))))
   \<and> capturar_datos_csv True
        [Some ''noise'', Some ''==='', Some ''1,2'', Some ''3,4'', Some ''FIN DATOS CSV'']
       = Some [''1,2'', ''3,4'']"
proof (intro conjI)
  show "capturar_datos_csv True lecturas =
     no_vacio (filter es_dato (dropWhile (\<lambda>l. \<not> es_inicio l)
        (takeWhile (\<lambda>l. \<not> detiene l) (lineas_leidas lecturas))))"
    unfolding capturar_datos_csv_def no_vacio_def Let_def capturar_bucle_filter by simp
  show "capturar_imagen_csv lecturas =
     no_vacio (filter es_dato (dropWhile (\<lambda>l. \<not> es_inicio l)
        (takeWhile (\<lambda>l. \<not> detiene l) (lineas_leidas lecturas))))"
    unfolding capturar_imagen_csv_def no_vacio_def Let_def capturar_bucle_filter by simp
  show "capturar_datos_csv True
        [Some ''noise'', Some ''==='', Some ''1,2'', Some ''3,4'', Some ''FIN DATOS CSV'']
       = Some [''1,2'', ''3,4'']"
    by (simp add: capturar_datos_csv_def es_inicio_def es_fin_def)
qed

theorem C3_capture_filter_witness:
  "capturar_datos_csv True
     [Some ''#c,1'', Some ''==='', None, Some ''#a,b'', Some ''1,2'', Some '''', Some ''x'',
      Some ''3,==='', Some ''4,5'', Some ''Copia estos datos'', Some ''6,7''] = Some [''1,2'', ''4,5'']"
  using C3_capture_filter [of "[Some ''#c,1'', Some ''==='', None, Some ''#a,b'', Some ''1,2'', Some '''', Some ''x'',
      Some ''3,==='', Some ''4,5'', Some ''Copia estos datos'', Some ''6,7'']"]
  by (simp add: es_dato_def es_inicio_def es_fin_def detiene_def no_vacio_def)

text \<open>
  Claim C7, as stated, fails: when the reads end (the wait expires) without an end
  marker, the data lines accepted so far are returned.
\<close>

theorem C7_counterexample:
  "capturar_datos_csv True [Some ''==='', Some ''1,2'', None, None] = Some [''1,2'']
   \<and> \<not> es_fin ''==='' \<and> \<not> es_fin ''1,2''"
  by (simp add: capturar_datos_csv_def es_inicio_def es_fin_def)

text \<open>
  Claim C7, amended. If no line read before the wait expires contains an end marker,
  the capture returns the data lines accepted after the start marker, and reports
  ``no data captured'' only when there is none.
\<close>

theorem C7_timeout_keeps_data:
  assumes "\<forall>l. Some l \<in> set lecturas \<longrightarrow> \<not> es_fin l"
  shows "capturar_datos_csv True lecturas =
     (if filter es_dato (dropWhile (\<lambda>l. \<not> es_inicio l) (lineas_leidas lecturas)) = [] then None
      else Some (filter es_dato (dropWhile (\<lambda>l. \<not> es_inicio l) (lineas_leidas lecturas))))"
  by (simp add: capturar_datos_csv_def capturar_bucle_filter Let_def takeWhile_no_fin [OF assms])

theorem C7_timeout_keeps_data_witness:
  "\<not> es_fin ''==='' \<and> \<not> es_fin ''1,2'' \<and> \<not> es_fin ''x''
   \<and> capturar_datos_csv True [Some ''==='', Some ''1,2'', None] = Some [''1,2'']
   \<and> capturar_datos_csv True [Some ''==='', Some ''x'', None] = None"
  using C7_timeout_keeps_data [of "[Some ''==='', Some ''1,2'', None]"]
   C7_timeout_keeps_data [of "[Some ''==='', Some ''x'', None]"]
  by (simp add: es_dato_def es_inicio_def es_fin_def)

section \<open>Properties of the CSV extractor\<close>

subsection \<open>Decimal renderings are read back\<close>

lemma digit_char_props:
  assumes "d < 10"
  shows "is_digit (digit_char d)" "digit_val (digit_char d) = d"
    "\<not> py_isspace (digit_char d)" "digit_char d \<noteq> CHR '',''"
    "digit_char d \<noteq> CHR ''_''" "digit_char d \<noteq> CHR ''-''" "digit_char d \<noteq> CHR ''+''"
proof -
  from assms have "d \<in> {0, 1, 2, 3, 4, 5, 6, 7, 8, 9}" by auto
  then show "is_digit (digit_char d)" "digit_val (digit_char d) = d"
    "\<not> py_isspace (digit_char d)" "digit_char d \<noteq> CHR '',''"
    "digit_char d \<noteq> CHR ''_''" "digit_char d \<noteq> CHR ''-''" "digit_char d \<noteq> CHR ''+''"
    by (auto simp add: digit_char_def is_digit_def digit_val_def py_isspace_def)
qed

lemma dec_nat_digits: "\<forall>c \<in> set (dec_nat n). is_digit c"
proof (induction n rule: dec_nat.induct)
  case (1 n)
  show ?case
  proof (cases "n < 10")
    case True
    then show ?thesis by (simp add: dec_nat.simps [of n] digit_char_props)
  next
    case False
    then show ?thesis using 1 by (simp add: dec_nat.simps [of n] digit_char_props)
  qed
qed

lemma dec_nat_nonempty: "dec_nat n \<noteq> []"
  by (simp add: dec_nat.simps [of n])

lemma is_digit_plain:
  assumes "is_digit c"
  shows "\<not> py_isspace c" "c \<noteq> CHR '',''" "c \<noteq> CHR ''_''" "c \<noteq> CHR ''-''" "c \<noteq> CHR ''+''"
  using assms by (auto simp add: is_digit_def py_isspace_def)

lemma py_digits_snoc:
  assumes "\<forall>c \<in> set ds. is_digit c" "is_digit d"
  shows "py_digits acc (ds @ [d]) = map_option (\<lambda>a. 10 * a + digit_val d) (py_digits acc ds)"
  using assms
proof (induction ds arbitrary: acc)
  case Nil
  then show ?case by (simp add: is_digit_plain)
next
  case (Cons c cs)
  then show ?case by (simp add: is_digit_plain)
qed

lemma py_digits_dec_nat: "py_digits 0 (dec_nat n) = Some n"
proof (induction n rule: dec_nat.induct)
  case (1 n)
  show ?case
  proof (cases "n < 10")
    case True
    then show ?thesis
      by (simp add: dec_nat.simps [of n] digit_char_props is_digit_plain)
  next
    case False
    then have "py_digits 0 (dec_nat (n div 10)) = Some (n div 10)" using 1 by simp
    then show ?thesis
      using False
      by (simp add: dec_nat.simps [of n] py_digits_snoc dec_nat_digits digit_char_props)
  qed
qed

lemma length_dec_nat: "n < 10 ^ k \<Longrightarrow> 0 < k \<Longrightarrow> length (dec_nat n) \<le> k"
proof (induction n arbitrary: k rule: dec_nat.induct)
  case (1 n)
  show ?case
  proof (cases "n < 10")
    case True
    then show ?thesis using "1.prems" by (simp add: dec_nat.simps [of n])
  next
    case False
    from "1.prems" obtain j where k: "k = Suc j" by (cases k) auto
    with False "1.prems" have j: "0 < j" by (cases j) auto
    from "1.prems" k have "n div 10 < 10 ^ j"
      by (simp add: less_mult_imp_div_less mult.commute)
    with "1.IH" [OF False _ j] have "length (dec_nat (n div 10)) \<le> j" by simp
    then show ?thesis using False k by (simp add: dec_nat.simps [of n])
  qed
qed

lemma strip_plain:
  assumes "\<forall>c \<in> set s. \<not> py_isspace c"
  shows "strip s = s"
proof -
  have d: "dropWhile py_isspace t = t" if "\<forall>c \<in> set t. \<not> py_isspace c" for t
    using that by (cases t) simp_all
  have "dropWhile py_isspace s = s" using assms by (rule d)
  moreover have "dropWhile py_isspace (rev s) = rev s" using assms by (intro d) simp
  ultimately show ?thesis by (simp add: strip_def)
qed

lemma dec_int_plain: "\<forall>c \<in> set (dec_int n). \<not> py_isspace c \<and> c \<noteq> CHR '',''"
proof -
  have nat_plain: "\<forall>c \<in> set (dec_nat m). \<not> py_isspace c \<and> c \<noteq> CHR '',''" for m
    using dec_nat_digits [of m] is_digit_plain by blast
  have "\<not> py_isspace (CHR ''-'')" by (simp add: py_isspace_def)
  then show ?thesis using nat_plain by (simp add: dec_int_def)
qed

lemma dec_int_nonempty: "dec_int n \<noteq> []"
  by (simp add: dec_int_def dec_nat_nonempty)

lemma py_int_dec_int:
  assumes "\<bar>n\<bar> < 10 ^ int_max_str_digits"
  shows "py_int (dec_int n) = Some n"
proof -
  have st: "strip (dec_int n) = dec_int n"
    using dec_int_plain by (simp add: strip_plain)
  define m where "m = nat \<bar>n\<bar>"
  obtain c cs where cs: "dec_nat m = c # cs"
    using dec_nat_nonempty [of m] by (cases "dec_nat m") auto
  have c: "is_digit c" using dec_nat_digits [of m] cs by simp
  have "m < 10 ^ int_max_str_digits"
    using assms unfolding m_def
    by (metis nat_less_iff abs_ge_zero of_nat_numeral of_nat_power)
  then have "length (dec_nat m) \<le> int_max_str_digits"
    by (rule length_dec_nat) (simp add: int_max_str_digits_def)
  moreover have "filter is_digit (dec_nat m) = dec_nat m"
    using dec_nat_digits by simp
  ultimately have len: "\<not> int_max_str_digits < length (filter is_digit (c # cs))"
    using cs by simp
  have dg: "py_digits 0 (c # cs) = Some m"
    using py_digits_dec_nat [of m] cs by simp
  show ?thesis
  proof (cases "n < 0")
    case True
    then have "dec_int n = CHR ''-'' # c # cs"
      by (simp add: dec_int_def m_def cs [unfolded m_def, symmetric])
    then show ?thesis
      unfolding py_int_def st Let_def using c len dg True
      by (simp add: m_def del: py_digits.simps)
  next
    case False
    then have "dec_int n = c # cs"
      by (simp add: dec_int_def m_def cs [unfolded m_def, symmetric])
    then show ?thesis
      unfolding py_int_def st Let_def using c len dg False
      by (simp add: m_def is_digit_plain del: py_digits.simps)
  qed
qed


lemma split_comma_plain:
  assumes "CHR '','' \<notin> set campo"
  shows "split_comma campo = [campo]" "split_comma (campo @ CHR '','' # resto) = campo # split_comma resto"
  using assms by (induction campo) auto

lemma split_join_comma:
  assumes "\<forall>campo \<in> set campos. CHR '','' \<notin> set campo" "campos \<noteq> []"
  shows "split_comma (join_comma campos) = campos"
  using assms
proof (induction campos rule: join_comma.induct)
  case 1
  then show ?case by simp
next
  case (2 campo)
  then show ?case by (simp add: split_comma_plain)
next
  case (3 campo c cs)
  then show ?case by (simp add: split_comma_plain)
qed

lemma fila_de_campos_dec_int:
  assumes "\<forall>n \<in> set fila. \<bar>n\<bar> < 10 ^ int_max_str_digits"
  shows "fila_de_campos (map dec_int fila) = Inr fila"
  using assms
proof (induction fila)
  case Nil
  show ?case by simp
next
  case (Cons n ns)
  have "strip (dec_int n) = dec_int n"
    using dec_int_plain by (simp add: strip_plain)
  then show ?case
    using Cons dec_int_nonempty [of n] by (simp add: py_int_dec_int)
qed

lemma fila_de_campos_linea_de_fila:
  assumes "\<forall>n \<in> set fila. \<bar>n\<bar> < 10 ^ int_max_str_digits"
  shows "fila_de_campos (split_comma (linea_de_fila fila)) = Inr fila"
proof (cases "fila = []")
  case True
  then show ?thesis by (simp add: linea_de_fila_def strip_def)
next
  case False
  have "\<forall>campo \<in> set (map dec_int fila). CHR '','' \<notin> set campo"
    using dec_int_plain by auto
  then have "split_comma (linea_de_fila fila) = map dec_int fila"
    unfolding linea_de_fila_def using False by (intro split_join_comma) simp_all
  then show ?thesis using assms by (simp add: fila_de_campos_dec_int)
qed

lemma convertir_bucle_lineas:
  assumes "\<forall>n \<in> set (concat filas). \<bar>n\<bar> < 10 ^ int_max_str_digits"
  shows "convertir_bucle valores (map linea_de_fila filas) = Inr (valores @ concat filas)"
  using assms
proof (induction filas arbitrary: valores)
  case Nil
  show ?case by simp
next
  case (Cons fila filas)
  then have "fila_de_campos (split_comma (linea_de_fila fila)) = Inr fila"
    by (intro fila_de_campos_linea_de_fila) simp
  then show ?case using Cons by simp
qed


text \<open>
  Claim C5. Applied to lines that are comma-separated decimal integers (each line the
  decimal renderings of a row of integers joined by commas, an empty row being an
  empty line), the extractor returns the rows' integers concatenated in arrival order.
  The integers are those that \<open>int\<close> converts, of at most 4300 digits. In
  particular the rows \<open>1,2,3\<close> and \<open>4,5\<close> give 1, 2, 3, 4, 5.
\<close>

theorem C5_extractor_flattens:
  "((\<forall>n \<in> set (concat filas). \<bar>n\<bar> < 10 ^ int_max_str_digits) \<longrightarrow>
     convertir_csv_a_array (map linea_de_fila filas) = Inr (concat filas))
   \<and> convertir_csv_a_array [''1,2,3'', ''4,5''] = Inr [1, 2, 3, 4, 5]"
proof (intro conjI impI)
  assume "\<forall>n \<in> set (concat filas). \<bar>n\<bar> < 10 ^ int_max_str_digits"
  then show "convertir_csv_a_array (map linea_de_fila filas) = Inr (concat filas)"
    by (simp add: convertir_csv_a_array_def convertir_bucle_lineas)
next
  show "convertir_csv_a_array [''1,2,3'', ''4,5''] = Inr [1, 2, 3, 4, 5]"
    by (simp add: convertir_csv_a_array_def strip_def py_isspace_def py_int_def is_digit_def
        digit_val_def int_max_str_digits_def)
qed

theorem C5_extractor_flattens_witness:
  "map linea_de_fila [[0, 255, 17], [], [-4, 100]] = [''0,255,17'', [], ''-4,100'']
   \<and> convertir_csv_a_array [''0,255,17'', [], ''-4,100''] = Inr [0, 255, 17, -4, 100]"
proof -
  have small: "\<bar>n\<bar> < 10 ^ int_max_str_digits" if "\<bar>n\<bar> < 10 ^ 3" for n :: int
  proof -
    have "(10::int) ^ 3 \<le> 10 ^ int_max_str_digits"
      by (rule power_increasing) (simp_all add: int_max_str_digits_def)
    with that show ?thesis by linarith
  qed
  have h: "\<forall>n \<in> set (concat [[0, 255, 17], [], [-4, 100 :: int]]). \<bar>n\<bar> < 10 ^ int_max_str_digits"
    using small [of 0] small [of 255] small [of 17] small [of "- 4"] small [of 100] by simp
  have l: "map linea_de_fila [[0, 255, 17], [], [-4, 100]] = [''0,255,17'', [], ''-4,100'']"
    by (simp add: linea_de_fila_def dec_int_def dec_nat.simps digit_char_def)
  from C5_extractor_flattens [of "[[0, 255, 17], [], [-4, 100]]"] h l show ?thesis
    by simp
qed

subsection \<open>A malformed token fails the extraction\<close>

lemma fila_de_campos_malo:
  assumes "val \<in> set vals" "strip val \<noteq> []" "py_int (strip val) = None"
  shows "fila_de_campos vals = Inl ValueError"
  using assms
proof (induction vals)
  case Nil
  then show ?case by simp
next
  case (Cons v vs)
  show ?case
  proof (cases "v = val")
    case True
    with Cons.prems show ?thesis by simp
  next
    case False
    with Cons.prems have "val \<in> set vs" by simp
    then have "fila_de_campos vs = Inl ValueError"
      using Cons.IH Cons.prems by simp
    then show ?thesis
      by (simp split: option.splits)
  qed
qed

lemma convertir_bucle_malo:
  assumes "linea \<in> set datos_csv" "fila_de_campos (split_comma linea) = Inl ValueError"
  shows "convertir_bucle valores datos_csv = Inl ValueError"
  using assms
proof (induction datos_csv arbitrary: valores)
  case Nil
  then show ?case by simp
next
  case (Cons l ls)
  show ?case
  proof (cases "fila_de_campos (split_comma l)")
    case (Inl e)
    then show ?thesis by (cases e) simp
  next
    case (Inr fila)
    with Cons.prems have "linea \<in> set ls" by auto
    then show ?thesis using Inr Cons.IH Cons.prems(2) by simp
  qed
qed


text \<open>
  Claim C6. If some line has a comma-separated token that is not empty after stripping
  and that \<open>int\<close> rejects, the whole extraction raises \<open>ValueError\<close>: the result is
  the error, and no list of values, whatever the other lines hold.
\<close>

theorem C6_malformed_token_raises:
  assumes "linea \<in> set datos_csv" "val \<in> set (split_comma linea)"
    "strip val \<noteq> []" "py_int (strip val) = None"
  shows "convertir_csv_a_array datos_csv = Inl ValueError"
  unfolding convertir_csv_a_array_def
  using convertir_bucle_malo [OF assms(1) fila_de_campos_malo [OF assms(2,3,4)]] .

theorem C6_malformed_token_raises_witness:
  "''4,x5'' \<in> set [''1,2,3'', ''4,x5'', ''6''] \<and> ''x5'' \<in> set (split_comma ''4,x5'')
   \<and> strip ''x5'' \<noteq> [] \<and> py_int (strip ''x5'') = None
   \<and> convertir_csv_a_array [''1,2,3'', ''4,x5'', ''6''] = Inl ValueError"
proof -
  have h1: "''4,x5'' \<in> set [''1,2,3'', ''4,x5'', ''6'']" by simp
  have h2: "''x5'' \<in> set (split_comma ''4,x5'')" by simp
  have h3: "strip ''x5'' \<noteq> []" by (simp add: strip_def py_isspace_def)
  have h4: "py_int (strip ''x5'') = None" by (simp add: strip_def py_isspace_def py_int_def is_digit_def)
  from C6_malformed_token_raises [OF h1 h2 h3 h4] h1 h2 h3 h4 show ?thesis by blast
qed

section \<open>Properties of the publishers\<close>

text \<open>
  Claim C8, as stated, fails for the drone simulator: it keeps no error counter, and a
  call to \<open>publish_telemetry\<close> while not connected returns at once with every
  global as it was, so nothing counts the attempt.
\<close>

theorem C8_counterexample:
  "\<not> connected \<lparr>connected = False, reading_count = 0, gps_loss_count = 0, flight_time = 0 :: int,
                   battery_level = 100, current_lat = 0, current_lon = 0, current_alt = 0,
                   prev_lat = 0, prev_lon = 0\<rparr>
   \<and> publish_telemetry
        \<lparr>tipo_anomalia = 1, mover_lat = (\<lambda>x. x + 1), mover_lon = (\<lambda>x. x + 1), nueva_alt = 7,
         descargar = (\<lambda>x. x - 1), respuesta = Rc 0\<rparr>
        \<lparr>connected = False, reading_count = 0, gps_loss_count = 0, flight_time = 0 :: int,
         battery_level = 100, current_lat = 0, current_lon = 0, current_alt = 0,
         prev_lat = 0, prev_lon = 0\<rparr>
     = (\<lparr>connected = False, reading_count = 0, gps_loss_count = 0, flight_time = 0,
         battery_level = 100, current_lat = 0, current_lon = 0, current_alt = 0,
         prev_lat = 0, prev_lon = 0\<rparr>, [])"
  by (simp add: publish_telemetry_def)

text \<open>
  Claim C8, amended. In the capture pipeline a publish attempt made while the link is
  not connected adds one to the error counter, leaves the three publish counters (and
  the connection flag) unchanged, returns False and makes no \<open>publish\<close> call, so it
  is not retried. In the drone simulator such an attempt makes no \<open>publish\<close> call
  either and changes no state: it is not retried and not counted.
\<close>

theorem C8_disconnected_publish:
  "(\<not> is_connected_mqtt s \<longrightarrow>
      enviar_a_flespi resultado s datos_imagen anomalia = (s\<lparr>errores := errores s + 1\<rparr>, False, []))
   \<and> (\<not> connected g \<longrightarrow> publish_telemetry e g = (g, []))"
  by (simp add: enviar_a_flespi_def publish_telemetry_def)

theorem C8_disconnected_publish_witness:
  "\<not> is_connected_mqtt flespi_init
   \<and> enviar_a_flespi (Rc 0) flespi_init [1, 2] ''normal''
       = (\<lparr>is_connected_mqtt = False, total_envios = 0, envios_humo = 0, envios_normal = 0,
           errores = 1\<rparr>, False, [])
   \<and> publish_telemetry
        \<lparr>tipo_anomalia = 1, mover_lat = (\<lambda>x. x + 1), mover_lon = (\<lambda>x. x + 1), nueva_alt = 7,
         descargar = (\<lambda>x. x - 1), respuesta = Rc 0\<rparr>
        \<lparr>connected = False, reading_count = 4, gps_loss_count = 0, flight_time = 0 :: int,
         battery_level = 100, current_lat = 0, current_lon = 0, current_alt = 0,
         prev_lat = 0, prev_lon = 0\<rparr>
     = (\<lparr>connected = False, reading_count = 4, gps_loss_count = 0, flight_time = 0,
         battery_level = 100, current_lat = 0, current_lon = 0, current_alt = 0,
         prev_lat = 0, prev_lon = 0\<rparr>, [])"
  using C8_disconnected_publish [of flespi_init "Rc 0" "[1, 2]" "''normal''"
     "\<lparr>connected = False, reading_count = 4, gps_loss_count = 0, flight_time = 0 :: int,
         battery_level = 100, current_lat = 0, current_lon = 0, current_alt = 0,
         prev_lat = 0, prev_lon = 0\<rparr>"
     "\<lparr>tipo_anomalia = 1, mover_lat = (\<lambda>x. x + 1), mover_lon = (\<lambda>x. x + 1), nueva_alt = 7,
         descargar = (\<lambda>x. x - 1), respuesta = Rc 0\<rparr>"]
  by (simp add: flespi_init_def)

text \<open>
  Claim C10. The equality total\_envios = envios\_humo + envios\_normal holds for the
  counters as \<open>__init__\<close> sets them and is preserved by every call of
  \<open>enviar_a_flespi\<close>. A call that succeeds (returns True) adds one to total\_envios and
  to exactly one of envios\_humo (verdict \<open>humo\<close>) and envios\_normal (any other
  verdict); a call that fails changes none of the three.
\<close>

theorem C10_counter_invariant:
  "cuentas_consistentes flespi_init
   \<and> (cuentas_consistentes s \<longrightarrow>
        cuentas_consistentes (fst (enviar_a_flespi resultado s datos_imagen anomalia)))
   \<and> (fst (snd (enviar_a_flespi resultado s datos_imagen anomalia)) \<longrightarrow>
        total_envios (fst (enviar_a_flespi resultado s datos_imagen anomalia)) = total_envios s + 1
        \<and> envios_humo (fst (enviar_a_flespi resultado s datos_imagen anomalia))
            = (if anomalia = ''humo'' then envios_humo s + 1 else envios_humo s)
        \<and> envios_normal (fst (enviar_a_flespi resultado s datos_imagen anomalia))
            = (if anomalia = ''humo'' then envios_normal s else envios_normal s + 1))
   \<and> (\<not> fst (snd (enviar_a_flespi resultado s datos_imagen anomalia)) \<longrightarrow>
        total_envios (fst (enviar_a_flespi resultado s datos_imagen anomalia)) = total_envios s
        \<and> envios_humo (fst (enviar_a_flespi resultado s datos_imagen anomalia)) = envios_humo s
        \<and> envios_normal (fst (enviar_a_flespi resultado s datos_imagen anomalia)) = envios_normal s)"
proof (intro conjI)
  show "cuentas_consistentes flespi_init"
    by (simp add: cuentas_consistentes_def flespi_init_def)
  show "cuentas_consistentes s \<longrightarrow>
        cuentas_consistentes (fst (enviar_a_flespi resultado s datos_imagen anomalia))"
    by (cases resultado) (simp_all add: cuentas_consistentes_def enviar_a_flespi_def Let_def)
  show "fst (snd (enviar_a_flespi resultado s datos_imagen anomalia)) \<longrightarrow>
        total_envios (fst (enviar_a_flespi resultado s datos_imagen anomalia)) = total_envios s + 1
        \<and> envios_humo (fst (enviar_a_flespi resultado s datos_imagen anomalia))
            = (if anomalia = ''humo'' then envios_humo s + 1 else envios_humo s)
        \<and> envios_normal (fst (enviar_a_flespi resultado s datos_imagen anomalia))
            = (if anomalia = ''humo'' then envios_normal s else envios_normal s + 1)"
    by (cases resultado) (simp_all add: enviar_a_flespi_def Let_def)
  show "\<not> fst (snd (enviar_a_flespi resultado s datos_imagen anomalia)) \<longrightarrow>
        total_envios (fst (enviar_a_flespi resultado s datos_imagen anomalia)) = total_envios s
        \<and> envios_humo (fst (enviar_a_flespi resultado s datos_imagen anomalia)) = envios_humo s
        \<and> envios_normal (fst (enviar_a_flespi resultado s datos_imagen anomalia)) = envios_normal s"
    by (cases resultado) (simp_all add: enviar_a_flespi_def Let_def)
qed

theorem C10_counter_invariant_witness:
  "cuentas_consistentes (on_mqtt_connect 0 flespi_init)
   \<and> cuentas_consistentes (fst (enviar_a_flespi (Rc 0) (on_mqtt_connect 0 flespi_init) [50, 55] ''humo''))
   \<and> fst (snd (enviar_a_flespi (Rc 0) (on_mqtt_connect 0 flespi_init) [50, 55] ''humo''))
   \<and> total_envios (fst (enviar_a_flespi (Rc 0) (on_mqtt_connect 0 flespi_init) [50, 55] ''humo'')) = 1
   \<and> envios_humo (fst (enviar_a_flespi (Rc 0) (on_mqtt_connect 0 flespi_init) [50, 55] ''humo'')) = 1
   \<and> envios_normal (fst (enviar_a_flespi (Rc 0) (on_mqtt_connect 0 flespi_init) [50, 55] ''humo'')) = 0
   \<and> \<not> fst (snd (enviar_a_flespi (Rc 4) (on_mqtt_connect 0 flespi_init) [50, 55] ''humo''))
   \<and> total_envios (fst (enviar_a_flespi (Rc 4) (on_mqtt_connect 0 flespi_init) [50, 55] ''humo'')) = 0"
proof -
  have c: "cuentas_consistentes (on_mqtt_connect 0 flespi_init)"
    by (simp add: cuentas_consistentes_def on_mqtt_connect_def flespi_init_def)
  have ok: "fst (snd (enviar_a_flespi (Rc 0) (on_mqtt_connect 0 flespi_init) [50, 55] ''humo''))"
    by (simp add: enviar_a_flespi_def on_mqtt_connect_def flespi_init_def MQTT_ERR_SUCCESS_def)
  have ko: "\<not> fst (snd (enviar_a_flespi (Rc 4) (on_mqtt_connect 0 flespi_init) [50, 55] ''humo''))"
    by (simp add: enviar_a_flespi_def on_mqtt_connect_def flespi_init_def MQTT_ERR_SUCCESS_def)
  have t: "total_envios (on_mqtt_connect 0 flespi_init) = 0"
    "envios_humo (on_mqtt_connect 0 flespi_init) = 0" "envios_normal (on_mqtt_connect 0 flespi_init) = 0"
    by (simp_all add: on_mqtt_connect_def flespi_init_def)
  from C10_counter_invariant [of "on_mqtt_connect 0 flespi_init" "Rc 0" "[50, 55]" "''humo''"]
    C10_counter_invariant [of "on_mqtt_connect 0 flespi_init" "Rc 4" "[50, 55]" "''humo''"]
    c ok ko t
  show ?thesis by simp
qed

section \<open>Properties of the image conversion\<close>

lemma reshape_length: "length (reshape h w datos) = h"
  by (induction h arbitrary: datos) simp_all

lemma reshape_nth:
  assumes "length datos = h * w" "y < h" "x < w"
  shows "reshape h w datos ! y ! x = datos ! (y * w + x)"
  using assms
proof (induction h arbitrary: datos y)
  case 0
  then show ?case by simp
next
  case (Suc h)
  show ?case
  proof (cases y)
    case 0
    then show ?thesis using Suc.prems by simp
  next
    case (Suc y')
    have len: "length (drop w datos) = h * w" using Suc.prems(1) by simp
    have "y' < h" using Suc.prems(2) \<open>y = Suc y'\<close> by simp
    from Suc.IH [OF len this Suc.prems(3)]
    have "reshape h w (drop w datos) ! y' ! x = drop w datos ! (y' * w + x)" .
    also have "\<dots> = datos ! (w + (y' * w + x))"
      using Suc.prems(1) by (intro nth_drop) simp
    finally show ?thesis using \<open>y = Suc y'\<close> by (simp add: add.assoc)
  qed
qed

lemma centro_bloque:
  assumes "d < s" "0 < w"
  shows "((2 * (x * s + d) + 1) * w) div (2 * (w * s)) = (x::nat)"
proof -
  have divisor: "2 * (w * s) = (2 * s) * w" by (simp add: mult_ac)
  have cancel: "(a * w) div (b * w) = a div b" for a b :: nat
    using assms(2) by simp
  have numerador: "2 * (x * s + d) + 1 = x * (2 * s) + (2 * d + 1)"
    by (simp add: algebra_simps)
  have resto: "(x * m + r) div m = x" if "r < m" for m r :: nat
    using that by simp
  have "2 * d + 1 < 2 * s" using assms(1) by simp
  then have "(x * (2 * s) + (2 * d + 1)) div (2 * s) = x" by (rule resto)
  then show ?thesis unfolding divisor cancel numerador .
qed

lemma resize_nearest_bloques:
  assumes r: "resize_nearest (w * s, h * s) \<lparr>im_ancho = w, im_alto = h, im_filas = rows\<rparr> = Some im"
  shows "im_ancho im = w * s" "im_alto im = h * s" "length (im_filas im) = h * s"
    "\<forall>fila \<in> set (im_filas im). length fila = w * s"
    "\<lbrakk>x < w; y < h; dx < s; dy < s\<rbrakk> \<Longrightarrow> im_filas im ! (y * s + dy) ! (x * s + dx) = rows ! y ! x"
proof -
  from r have pos: "\<not> (w * s < 1 \<or> h * s < 1)"
    by (auto simp add: resize_nearest_def split: if_splits)
  with r have im: "im = \<lparr>im_ancho = w * s, im_alto = h * s,
      im_filas = map (\<lambda>Y. map (\<lambda>X. rows ! (((2 * Y + 1) * h) div (2 * (h * s)))
                                         ! (((2 * X + 1) * w) div (2 * (w * s))))
                            [0..<w * s]) [0..<h * s]\<rparr>"
    by (simp add: resize_nearest_def)
  show "im_ancho im = w * s" "im_alto im = h * s" "length (im_filas im) = h * s"
    "\<forall>fila \<in> set (im_filas im). length fila = w * s"
    by (auto simp add: im)
  assume b: "x < w" "y < h" "dx < s" "dy < s"
  have X: "x * s + dx < w * s"
  proof -
    have "x * s + dx < x * s + s" using b(3) by simp
    also have "\<dots> = Suc x * s" by simp
    also have "\<dots> \<le> w * s" using b(1) by (intro mult_le_mono1) simp
    finally show ?thesis .
  qed
  have Y: "y * s + dy < h * s"
  proof -
    have "y * s + dy < y * s + s" using b(4) by simp
    also have "\<dots> = Suc y * s" by simp
    also have "\<dots> \<le> h * s" using b(2) by (intro mult_le_mono1) simp
    finally show ?thesis .
  qed
  have cx: "((2 * (x * s + dx) + 1) * w) div (2 * (w * s)) = x"
    using b(1,3) by (intro centro_bloque) simp_all
  have cy: "((2 * (y * s + dy) + 1) * h) div (2 * (h * s)) = y"
    using b(2,4) by (intro centro_bloque) simp_all
  have px: "im_filas im ! Yi ! Xi = rows ! (((2 * Yi + 1) * h) div (2 * (h * s)))
                                          ! (((2 * Xi + 1) * w) div (2 * (w * s)))"
    if "Yi < h * s" "Xi < w * s" for Yi Xi
    using that by (simp add: im)
  show "im_filas im ! (y * s + dy) ! (x * s + dx) = rows ! y ! x"
    unfolding px [OF Y X] cx cy ..
qed


lemma array_a_imagen_bloques:
  assumes r: "array_a_imagen c datos escalar = (c', mensajes, Some im)" and s: "1 < escalar"
  shows "im_ancho im = ancho c' * nat escalar \<and> im_alto im = alto c' * nat escalar
    \<and> length (im_filas im) = alto c' * nat escalar
    \<and> (\<forall>fila \<in> set (im_filas im). length fila = ancho c' * nat escalar)
    \<and> (\<forall>x y dx dy. x < ancho c' \<and> y < alto c' \<and> dx < nat escalar \<and> dy < nat escalar \<longrightarrow>
          im_filas im ! (y * nat escalar + dy) ! (x * nat escalar + dx) = datos ! (y * ancho c' + x))"
proof -
  obtain c1 m1 where aj: "ajustar c (length datos) = (c1, m1)"
    by (cases "ajustar c (length datos)") auto
  from r s aj have len: "alto c1 * ancho c1 = length datos" and c1: "c1 = c'"
    and rs: "resize_nearest (ancho c1 * nat escalar, alto c1 * nat escalar)
        \<lparr>im_ancho = ancho c1, im_alto = alto c1, im_filas = reshape (alto c1) (ancho c1) datos\<rparr> = Some im"
    by (auto simp add: array_a_imagen_def Let_def split: if_splits option.splits)
  note bl = resize_nearest_bloques [OF rs]
  have "im_filas im ! (y * nat escalar + dy) ! (x * nat escalar + dx) = datos ! (y * ancho c' + x)"
    if "x < ancho c'" "y < alto c'" "dx < nat escalar" "dy < nat escalar" for x y dx dy
  proof -
    have "im_filas im ! (y * nat escalar + dy) ! (x * nat escalar + dx)
        = reshape (alto c1) (ancho c1) datos ! y ! x"
      using that c1 by (intro bl(5)) simp_all
    also have "\<dots> = datos ! (y * ancho c1 + x)"
      using that c1 len by (intro reshape_nth) simp_all
    finally show ?thesis using c1 by simp
  qed
  then show ?thesis using bl(1-4) c1 by simp
qed

lemma find_upt_first:
  "(List.find P [a..<b] = Some h) = (a \<le> h \<and> h < b \<and> P h \<and> (\<forall>k. a \<le> k \<and> k < h \<longrightarrow> \<not> P k))"
proof
  assume "List.find P [a..<b] = Some h"
  then obtain i where i: "i < length [a..<b]" "P ([a..<b] ! i)" "h = [a..<b] ! i"
    "\<forall>j<i. \<not> P ([a..<b] ! j)"
    unfolding find_Some_iff by blast
  from i(1) have ib: "a + i < b" by simp
  then have h: "h = a + i" using i(3) by simp
  have "\<not> P k" if "a \<le> k" "k < h" for k
  proof -
    from that h have "k - a < i" by simp
    with i(4) have "\<not> P ([a..<b] ! (k - a))" by blast
    moreover have "[a..<b] ! (k - a) = k" using that h ib by simp
    ultimately show ?thesis by simp
  qed
  then show "a \<le> h \<and> h < b \<and> P h \<and> (\<forall>k. a \<le> k \<and> k < h \<longrightarrow> \<not> P k)"
    using h ib i(2) by simp
next
  assume r: "a \<le> h \<and> h < b \<and> P h \<and> (\<forall>k. a \<le> k \<and> k < h \<longrightarrow> \<not> P k)"
  then have r1: "a \<le> h" "h < b" "P h" and r4: "\<And>k. a \<le> k \<Longrightarrow> k < h \<Longrightarrow> \<not> P k"
    by auto
  have "\<exists>i<length [a..<b]. P ([a..<b] ! i) \<and> h = [a..<b] ! i \<and> (\<forall>j<i. \<not> P ([a..<b] ! j))"
  proof (intro exI [of _ "h - a"] conjI allI impI)
    show "h - a < length [a..<b]" using r1 by simp
    show "P ([a..<b] ! (h - a))" using r1 by simp
    show "h = [a..<b] ! (h - a)" using r1 by simp
    fix j assume j: "j < h - a"
    then have "a + j < h" by arith
    then have "\<not> P (a + j)" by (intro r4) simp_all
    moreover have "[a..<b] ! j = a + j" using j r1 by simp
    ultimately show "\<not> P ([a..<b] ! j)" by simp
  qed
  then show "List.find P [a..<b] = Some h"
    unfolding find_Some_iff by blast
qed

lemma buscar_alto_first:
  "(buscar_alto n = Some h) =
     (10 \<le> h \<and> h < 50 \<and> n mod h = 0 \<and> (\<forall>k. 10 \<le> k \<and> k < h \<longrightarrow> n mod k \<noteq> 0))"
  unfolding buscar_alto_def by (rule find_upt_first)

lemma buscar_alto_400: "buscar_alto 400 = Some 10"
  by (simp add: buscar_alto_first)

lemma resize_nearest_Some:
  assumes "1 \<le> W" "1 \<le> H"
  shows "\<exists>grande. resize_nearest (W, H) im = Some grande"
  using assms by (simp add: resize_nearest_def)

lemma array_a_imagen_396:
  assumes "length datos = 396"
  shows "fst (array_a_imagen converter_init datos escalar) = converter_init"
    "fst (snd (array_a_imagen converter_init datos escalar)) = []"
    "\<not> 1 < escalar \<Longrightarrow> snd (snd (array_a_imagen converter_init datos escalar))
       = Some \<lparr>im_ancho = 22, im_alto = 18, im_filas = reshape 18 22 datos\<rparr>"
proof -
  have aj: "ajustar converter_init (length datos) = (converter_init, [])"
    using assms by (simp add: ajustar_def converter_init_def)
  have dims: "ancho converter_init = 22" "alto converter_init = 18"
    by (simp_all add: converter_init_def)
  show "\<not> 1 < escalar \<Longrightarrow> snd (snd (array_a_imagen converter_init datos escalar))
       = Some \<lparr>im_ancho = 22, im_alto = 18, im_filas = reshape 18 22 datos\<rparr>"
    unfolding array_a_imagen_def aj using assms by (simp add: dims)
  show "fst (array_a_imagen converter_init datos escalar) = converter_init"
    unfolding array_a_imagen_def aj using assms by (simp add: dims Let_def split: option.splits)
  show "fst (snd (array_a_imagen converter_init datos escalar)) = []"
  proof (cases "1 < escalar")
    case False
    then show ?thesis unfolding array_a_imagen_def aj using assms by (simp add: dims)
  next
    case True
    then have "1 \<le> 22 * nat escalar" "1 \<le> 18 * nat escalar" by simp_all
    from resize_nearest_Some [OF this]
    obtain grande where "resize_nearest (22 * nat escalar, 18 * nat escalar)
      \<lparr>im_ancho = 22, im_alto = 18, im_filas = reshape 18 22 datos\<rparr> = Some grande" by blast
    then show ?thesis using True unfolding array_a_imagen_def aj using assms by (simp add: dims)
  qed
qed

lemma array_a_imagen_400:
  assumes "length datos = 400"
  shows "fst (array_a_imagen converter_init datos escalar) = \<lparr>ancho = 40, alto = 10\<rparr>"
    "fst (snd (array_a_imagen converter_init datos escalar)) = [Ajustando 400, NuevoTamano 40 10]"
proof -
  have aj: "ajustar converter_init (length datos)
      = (\<lparr>ancho = 40, alto = 10\<rparr>, [Ajustando 400, NuevoTamano 40 10])"
    using assms by (simp add: ajustar_def converter_init_def buscar_alto_400)
  show "fst (array_a_imagen converter_init datos escalar) = \<lparr>ancho = 40, alto = 10\<rparr>"
    unfolding array_a_imagen_def aj using assms by (simp add: Let_def split: option.splits)
  show "fst (snd (array_a_imagen converter_init datos escalar)) = [Ajustando 400, NuevoTamano 40 10]"
  proof (cases "1 < escalar")
    case False
    then show ?thesis unfolding array_a_imagen_def aj using assms by simp
  next
    case True
    then have "1 \<le> 40 * nat escalar" "1 \<le> 10 * nat escalar" by simp_all
    from resize_nearest_Some [OF this]
    obtain grande where "resize_nearest (40 * nat escalar, 10 * nat escalar)
      \<lparr>im_ancho = 40, im_alto = 10, im_filas = reshape 10 40 datos\<rparr> = Some grande" by blast
    then show ?thesis using True assms unfolding array_a_imagen_def aj by simp
  qed
qed

text \<open>
  Claim C2, as stated, fails in its second half: for a flat array of 400 pixels and the
  configured 22 by 18, the search over the heights 10, 11, ... stops at 10, which
  divides 400, and the converter takes height 10 and width 40, not 20 by 20.
\<close>

theorem C2_fallback_counterexample:
  "length (replicate 400 (0 :: pixel)) = 400
   \<and> fst (array_a_imagen converter_init (replicate 400 0) 1) = \<lparr>ancho = 40, alto = 10\<rparr>
   \<and> \<lparr>ancho = 40, alto = 10\<rparr> \<noteq> \<lparr>ancho = 20, alto = 20\<rparr>"
  using array_a_imagen_400 (1) [of "replicate 400 0" 1] by simp

text \<open>
  Claim C2, amended. With the configured dimensions 22 by 18, a flat array of length
  396 is reshaped directly, row-major (row y, column x is element y * 22 + x), into 18
  rows of 22: no message of the fallback is printed and the dimensions stay as
  configured. A flat array of length 400 triggers the fallback search, which selects
  height 10 and width 40. The search returns the first height from 10 on, below 50,
  that evenly divides the length.
\<close>

theorem C2_reshape_and_fallback:
  "(length datos = 396 \<longrightarrow>
      fst (array_a_imagen converter_init datos escalar) = converter_init
      \<and> fst (snd (array_a_imagen converter_init datos escalar)) = []
      \<and> array_a_imagen converter_init datos 1
          = (converter_init, [], Some \<lparr>im_ancho = 22, im_alto = 18, im_filas = reshape 18 22 datos\<rparr>)
      \<and> (\<forall>x y. x < 22 \<and> y < 18 \<longrightarrow> reshape 18 22 datos ! y ! x = datos ! (y * 22 + x)))
   \<and> (length datos = 400 \<longrightarrow>
      fst (array_a_imagen converter_init datos escalar) = \<lparr>ancho = 40, alto = 10\<rparr>
      \<and> fst (snd (array_a_imagen converter_init datos escalar)) = [Ajustando 400, NuevoTamano 40 10])
   \<and> (buscar_alto n = Some h) =
        (10 \<le> h \<and> h < 50 \<and> n mod h = 0 \<and> (\<forall>k. 10 \<le> k \<and> k < h \<longrightarrow> n mod k \<noteq> 0))"
proof (intro conjI impI)
  assume l: "length datos = 396"
  show "fst (array_a_imagen converter_init datos escalar) = converter_init"
    using l by (rule array_a_imagen_396)
  show "fst (snd (array_a_imagen converter_init datos escalar)) = []"
    using l by (rule array_a_imagen_396)
  have "array_a_imagen converter_init datos 1
      = (fst (array_a_imagen converter_init datos 1), fst (snd (array_a_imagen converter_init datos 1)),
         snd (snd (array_a_imagen converter_init datos 1)))"
    by simp
  also have "\<dots> = (converter_init, [], Some \<lparr>im_ancho = 22, im_alto = 18, im_filas = reshape 18 22 datos\<rparr>)"
    using array_a_imagen_396 [OF l, of 1] by simp
  finally show "array_a_imagen converter_init datos 1
      = (converter_init, [], Some \<lparr>im_ancho = 22, im_alto = 18, im_filas = reshape 18 22 datos\<rparr>)" .
  show "\<forall>x y. x < 22 \<and> y < 18 \<longrightarrow> reshape 18 22 datos ! y ! x = datos ! (y * 22 + x)"
    using l by (intro allI impI reshape_nth) simp_all
next
  assume l: "length datos = 400"
  show "fst (array_a_imagen converter_init datos escalar) = \<lparr>ancho = 40, alto = 10\<rparr>"
    using l by (rule array_a_imagen_400)
  show "fst (snd (array_a_imagen converter_init datos escalar)) = [Ajustando 400, NuevoTamano 40 10]"
    using l by (rule array_a_imagen_400)
next
  show "(buscar_alto n = Some h) =
        (10 \<le> h \<and> h < 50 \<and> n mod h = 0 \<and> (\<forall>k. 10 \<le> k \<and> k < h \<longrightarrow> n mod k \<noteq> 0))"
    by (rule buscar_alto_first)
qed

theorem C2_reshape_and_fallback_witness:
  "length (replicate 396 (7 :: pixel)) = 396
   \<and> fst (array_a_imagen converter_init (replicate 396 7) 10) = converter_init
   \<and> fst (snd (array_a_imagen converter_init (replicate 396 7) 10)) = []
   \<and> length (replicate 400 (7 :: pixel)) = 400
   \<and> fst (array_a_imagen converter_init (replicate 400 7) 10) = \<lparr>ancho = 40, alto = 10\<rparr>
   \<and> fst (snd (array_a_imagen converter_init (replicate 400 7) 10)) = [Ajustando 400, NuevoTamano 40 10]
   \<and> buscar_alto 400 = Some 10"
  using C2_reshape_and_fallback [of "replicate 396 7" 10 400 10]
    C2_reshape_and_fallback [of "replicate 400 7" 10 400 10]
  by simp

lemma array_a_imagen_devuelve:
  assumes "length datos = ancho c * alto c" "0 < length datos" "1 < escalar"
  shows "\<exists>im. array_a_imagen c datos escalar = (c, [], Some im)"
proof -
  have aj: "ajustar c (length datos) = (c, [])"
    using assms(1) by (simp add: ajustar_def)
  from assms(1,2) have "0 < ancho c" "0 < alto c" by simp_all
  with assms(3) have "1 \<le> ancho c * nat escalar" "1 \<le> alto c * nat escalar" by simp_all
  from resize_nearest_Some [OF this]
  obtain grande where "resize_nearest (ancho c * nat escalar, alto c * nat escalar)
      \<lparr>im_ancho = ancho c, im_alto = alto c, im_filas = reshape (alto c) (ancho c) datos\<rparr> = Some grande"
    by blast
  then show ?thesis
    unfolding array_a_imagen_def aj using assms by (simp add: mult.commute)
qed


text \<open>
  Claim C9. For every non-empty flat array that fills the configured w by h grid and
  every scale factor s > 1, \<open>array_a_imagen\<close> returns an image. Whenever it returns an
  image for s > 1, the converter's final dimensions being w and h, the image is sw wide
  and sh high, and for every source position (x, y) of the w by h grid the s by s
  block of the image at columns xs to xs + s - 1 and rows ys to ys + s - 1 holds
  exactly the source pixel, the element y * w + x of the flat array: replication, no
  blending.
\<close>

theorem C9_nearest_blocks:
  "(length datos = ancho c * alto c \<and> 0 < length datos \<and> 1 < escalar \<longrightarrow>
      (\<exists>im. array_a_imagen c datos escalar = (c, [], Some im)))
   \<and> (array_a_imagen c datos escalar = (c', mensajes, Some im) \<and> 1 < escalar \<longrightarrow>
      im_ancho im = ancho c' * nat escalar \<and> im_alto im = alto c' * nat escalar
      \<and> length (im_filas im) = alto c' * nat escalar
      \<and> (\<forall>fila \<in> set (im_filas im). length fila = ancho c' * nat escalar)
      \<and> (\<forall>x y dx dy. x < ancho c' \<and> y < alto c' \<and> dx < nat escalar \<and> dy < nat escalar \<longrightarrow>
            im_filas im ! (y * nat escalar + dy) ! (x * nat escalar + dx) = datos ! (y * ancho c' + x)))"
  using array_a_imagen_devuelve [of datos c escalar]
    array_a_imagen_bloques [of c datos escalar c' mensajes im]
  by blast

theorem C9_nearest_blocks_witness:
  "array_a_imagen \<lparr>ancho = 2, alto = 2\<rparr> [1, 2, 3, 4] 2
     = (\<lparr>ancho = 2, alto = 2\<rparr>, [],
        Some \<lparr>im_ancho = 4, im_alto = 4,
              im_filas = [[1, 1, 2, 2], [1, 1, 2, 2], [3, 3, 4, 4], [3, 3, 4, 4]]\<rparr>)
   \<and> (1::int) < 2
   \<and> [[1, 1, 2, 2], [1, 1, 2, 2], [3, 3, 4, 4], [3, 3, 4, 4 :: pixel]] ! (1 * 2 + 1) ! (0 * 2 + 1)
       = [1, 2, 3, 4] ! (1 * 2 + 0)"
proof -
  have ev: "array_a_imagen \<lparr>ancho = 2, alto = 2\<rparr> [1, 2, 3, 4] 2
     = (\<lparr>ancho = 2, alto = 2\<rparr>, [],
        Some \<lparr>im_ancho = 4, im_alto = 4,
              im_filas = [[1, 1, 2, 2], [1, 1, 2, 2], [3, 3, 4, 4], [3, 3, 4, 4]]\<rparr>)"
    by (simp add: array_a_imagen_def ajustar_def resize_nearest_def numeral_2_eq_2
        upt_conv_Cons)
  have s: "(1::int) < 2" by simp
  from C9_nearest_blocks [of "[1, 2, 3, 4]" "\<lparr>ancho = 2, alto = 2\<rparr>" 2 "\<lparr>ancho = 2, alto = 2\<rparr>" "[]"
      "\<lparr>im_ancho = 4, im_alto = 4,
        im_filas = [[1, 1, 2, 2], [1, 1, 2, 2], [3, 3, 4, 4], [3, 3, 4, 4]]\<rparr>"] ev s
  have "\<forall>x y dx dy. x < 2 \<and> y < 2 \<and> dx < 2 \<and> dy < 2 \<longrightarrow>
      [[1, 1, 2, 2], [1, 1, 2, 2], [3, 3, 4, 4], [3, 3, 4, 4 :: pixel]] ! (y * 2 + dy) ! (x * 2 + dx)
        = [1, 2, 3, 4] ! (y * 2 + x)"
    by simp
  then have "[[1, 1, 2, 2], [1, 1, 2, 2], [3, 3, 4, 4], [3, 3, 4, 4 :: pixel]] ! (1 * 2 + 1) ! (0 * 2 + 1)
       = [1, 2, 3, 4] ! (1 * 2 + 0)"
    by (elim allE [of _ 0] allE [of _ 1]) simp
  with ev s show ?thesis by blast
qed

end
